theory Spec2Isabelle
  imports Complex_Main
begin

section \<open>Documents and collections\<close>

text \<open>
  The server keeps three Mongoose models, \<open>User\<close>, \<open>Post\<close> and \<open>Comment\<close>. A collection is
  the list of its documents in insertion order. Every document carries its \<open>_id\<close> (written
  \<open>oid\<close>) and the \<open>createdAt\<close> stamp that \<open>timestamps: true\<close> adds; \<open>updatedAt\<close> is read by no
  handler and is left out. An ObjectId is the number its twelve bytes spell.
\<close>

type_synonym objectId = nat

record doc =
  oid :: objectId
  createdAt :: nat

record user = doc +
  username :: string
  email :: string
  fullName :: string
  bio :: string
  avatar :: string
  university :: string
  major :: string
  followers :: "objectId list"
  following :: "objectId list"

text \<open>The post schema of \<open>models/Post\<close>; attachments and the job and note sub-objects are read
  by no handler modelled here and are left out.\<close>

record post = doc +
  author :: objectId
  ptype :: string
  title :: string
  content :: string
  category :: string
  tags :: "string list"
  likes :: "objectId list"
  comments :: "objectId list"
  views :: nat
  isPublic :: bool

record comment = doc +
  c_author :: objectId
  c_post :: objectId
  parentComment :: "objectId option"
  c_content :: string
  replies :: "objectId list"
  c_likes :: "objectId list"

record db =
  User :: "user list"
  Post :: "post list"
  Comment :: "comment list"

text \<open>A failed request is its HTTP status with the \<open>message\<close> of the JSON body.\<close>

type_synonym error = "nat \<times> string"

subsection \<open>The Mongoose operations the handlers call\<close>

definition findById :: "objectId \<Rightarrow> ('a doc_scheme) list \<Rightarrow> ('a doc_scheme) option" where
  "findById i ds = find (\<lambda>d. oid d = i) ds"

fun findByIdAndUpdate ::
  "objectId \<Rightarrow> ('a doc_scheme \<Rightarrow> 'a doc_scheme) \<Rightarrow> ('a doc_scheme) list \<Rightarrow> ('a doc_scheme) list" where
  "findByIdAndUpdate i f [] = []"
| "findByIdAndUpdate i f (d # ds) =
     (if oid d = i then f d # ds else d # findByIdAndUpdate i f ds)"

fun findByIdAndDelete :: "objectId \<Rightarrow> ('a doc_scheme) list \<Rightarrow> ('a doc_scheme) list" where
  "findByIdAndDelete i [] = []"
| "findByIdAndDelete i (d # ds) = (if oid d = i then ds else d # findByIdAndDelete i ds)"

definition deleteMany :: "('a \<Rightarrow> bool) \<Rightarrow> 'a list \<Rightarrow> 'a list" where
  "deleteMany q ds = filter (\<lambda>d. \<not> q d) ds"

text \<open>\<open>$push\<close> appends one element; \<open>$pull\<close> removes every element equal to the value.\<close>

definition push :: "'a \<Rightarrow> 'a list \<Rightarrow> 'a list" where
  "push x xs = xs @ [x]"

definition pull :: "'a \<Rightarrow> 'a list \<Rightarrow> 'a list" where
  "pull x xs = removeAll x xs"

definition array_includes :: "'a list \<Rightarrow> 'a \<Rightarrow> bool" where
  "array_includes xs x = (x \<in> set xs)"

subsection \<open>Route parameters that name a document\<close>

text \<open>
  A route parameter is a string. Mongoose casts it to an ObjectId when it is 24 hexadecimal
  digits, in either case; \<open>toString()\<close> of an ObjectId is its lower-case spelling. So a
  parameter is the lower-case spelling of an identifier, another spelling of it (some digit
  among \<open>a\<close> to \<open>f\<close> in upper case), or no ObjectId at all, on which a query throws and the
  handler's \<open>catch\<close> answers 500. The follow and unfollow handlers, the listings and the
  single-post fetch are modelled on \<open>param\<close>. The like, create and delete handlers only cast
  their parameters: there a parameter is the ObjectId it casts to, and a malformed one is
  outside the model.
\<close>

datatype param = Canonical objectId | Variant objectId | Malformed

fun castObjectId :: "param \<Rightarrow> objectId option" where
  "castObjectId (Canonical i) = Some i"
| "castObjectId (Variant i) = Some i"
| "castObjectId Malformed = None"

text \<open>\<open>xs.includes(p)\<close> on a Mongoose array of ObjectIds and a string \<open>p\<close> compares \<open>p\<close> with
  the string form of each element.\<close>

definition includes_string :: "objectId list \<Rightarrow> param \<Rightarrow> bool" where
  "includes_string xs p = (case p of Canonical i \<Rightarrow> i \<in> set xs | _ \<Rightarrow> False)"

text \<open>The parameters that are strings: an identifier has 24 hexadecimal digits, and only one
  with a digit above 9 has a second spelling.\<close>

fun has_hex_letter :: "nat \<Rightarrow> bool" where
  "has_hex_letter n = (if n = 0 then False else 10 \<le> n mod 16 \<or> has_hex_letter (n div 16))"

definition spelled :: "param \<Rightarrow> bool" where
  "spelled p =
     (case p of
        Canonical i \<Rightarrow> i < 16 ^ 24
      | Variant i \<Rightarrow> i < 16 ^ 24 \<and> has_hex_letter i
      | Malformed \<Rightarrow> True)"

text \<open>Modelled from the spec: the \<open>auth\<close> middleware (\<open>middleware/auth\<close> is not among the
  sources). It verifies the token, looks the user up and attaches the record as \<open>req.user\<close>;
  so inside a handler behind \<open>auth\<close> the attached record is the caller's stored document.\<close>

definition authenticated :: "db \<Rightarrow> user \<Rightarrow> bool" where
  "authenticated s req_user = (findById (oid req_user) (User s) = Some req_user)"

section \<open>routes/users\<close>

text \<open>\<open>POST /:userId/follow\<close>. The handler toggles: a caller who already follows the target
  is unfollowed.\<close>

definition follow :: "user \<Rightarrow> param \<Rightarrow> db \<Rightarrow> (error + string) \<times> db" where
  "follow req_user userId s =
     (if userId = Canonical (oid req_user) then (Inl (400, ''You cannot follow yourself''), s)
      else case castObjectId userId of
        None \<Rightarrow> (Inl (500, ''Server error''), s)
      | Some target \<Rightarrow>
          (case findById target (User s) of
             None \<Rightarrow> (Inl (404, ''User not found''), s)
           | Some userToFollow \<Rightarrow>
               (case findById (oid req_user) (User s) of
                  None \<Rightarrow> (Inl (500, ''Server error''), s)
                | Some currentUser \<Rightarrow>
                    if includes_string (following currentUser) userId then
                      (Inr ''User unfollowed successfully'',
                       s\<lparr>User :=
                           findByIdAndUpdate target
                             (\<lambda>u. u\<lparr>followers := pull (oid req_user) (followers u)\<rparr>)
                             (findByIdAndUpdate (oid req_user)
                               (\<lambda>u. u\<lparr>following := pull target (following u)\<rparr>) (User s))\<rparr>)
                    else
                      (Inr ''User followed successfully'',
                       s\<lparr>User :=
                           findByIdAndUpdate target
                             (\<lambda>u. u\<lparr>followers := push (oid req_user) (followers u)\<rparr>)
                             (findByIdAndUpdate (oid req_user)
                               (\<lambda>u. u\<lparr>following := push target (following u)\<rparr>) (User s))\<rparr>))))"

text \<open>\<open>DELETE /:userId/follow\<close>.\<close>

definition unfollow :: "user \<Rightarrow> param \<Rightarrow> db \<Rightarrow> (error + string) \<times> db" where
  "unfollow req_user userId s =
     (if userId = Canonical (oid req_user) then (Inl (400, ''You cannot unfollow yourself''), s)
      else case castObjectId userId of
        None \<Rightarrow> (Inl (500, ''Server error''), s)
      | Some target \<Rightarrow>
          (case findById target (User s) of
             None \<Rightarrow> (Inl (404, ''User not found''), s)
           | Some userToUnfollow \<Rightarrow>
               (case findById (oid req_user) (User s) of
                  None \<Rightarrow> (Inl (500, ''Server error''), s)
                | Some currentUser \<Rightarrow>
                    if \<not> includes_string (following currentUser) userId then
                      (Inl (400, ''Not following this user''), s)
                    else
                      (Inr ''User unfollowed successfully'',
                       s\<lparr>User :=
                           findByIdAndUpdate target
                             (\<lambda>u. u\<lparr>followers := pull (oid req_user) (followers u)\<rparr>)
                             (findByIdAndUpdate (oid req_user)
                               (\<lambda>u. u\<lparr>following := pull target (following u)\<rparr>) (User s))\<rparr>))))"

text \<open>A run of follow and unfollow requests. Each request passes \<open>auth\<close> first, which attaches
  the caller's stored document; a caller the collection does not hold is turned away there.\<close>

datatype user_request = Follow objectId param | Unfollow objectId param

fun handle_user_request :: "user_request \<Rightarrow> db \<Rightarrow> db" where
  "handle_user_request (Follow caller userId) s =
     (case findById caller (User s) of
        None \<Rightarrow> s
      | Some req_user \<Rightarrow> snd (follow req_user userId s))"
| "handle_user_request (Unfollow caller userId) s =
     (case findById caller (User s) of
        None \<Rightarrow> s
      | Some req_user \<Rightarrow> snd (unfollow req_user userId s))"

fun run_user_requests :: "user_request list \<Rightarrow> db \<Rightarrow> db" where
  "run_user_requests [] s = s"
| "run_user_requests (r # rs) s = run_user_requests rs (handle_user_request r s)"

text \<open>A follow request names the caller's own identifier as written by \<open>toString()\<close>, or
  names somebody else.\<close>

fun own_id_as_written :: "user_request \<Rightarrow> bool" where
  "own_id_as_written (Follow caller p) = (castObjectId p \<noteq> Some caller \<or> p = Canonical caller)"
| "own_id_as_written (Unfollow caller p) = True"

text \<open>\<open>PUT /profile\<close>. The body arrives as multipart form fields, so each field is a string or
  absent; \<open>a || b\<close> takes \<open>b\<close> when \<open>a\<close> is absent or the empty string.\<close>

record profile_body =
  b_fullName :: "string option"
  b_username :: "string option"
  b_email :: "string option"
  b_university :: "string option"
  b_major :: "string option"
  b_bio :: "string option"

definition truthy :: "string option \<Rightarrow> bool" where
  "truthy v = (case v of None \<Rightarrow> False | Some x \<Rightarrow> x \<noteq> [])"

definition or_else :: "string option \<Rightarrow> string \<Rightarrow> string" where
  "or_else v d = (case v of None \<Rightarrow> d | Some x \<Rightarrow> if x = [] then d else x)"

definition findOne :: "('a \<Rightarrow> bool) \<Rightarrow> 'a list \<Rightarrow> 'a option" where
  "findOne q ds = find q ds"

definition update_profile ::
  "user \<Rightarrow> profile_body \<Rightarrow> string option \<Rightarrow> db \<Rightarrow> (error + string \<times> user option) \<times> db" where
  "update_profile req_user body file s =
     (if truthy (b_username body) \<and> b_username body \<noteq> Some (username req_user) \<and>
         findOne (\<lambda>u. Some (username u) = b_username body) (User s) \<noteq> None
      then (Inl (400, ''Username already taken''), s)
      else if truthy (b_email body) \<and> b_email body \<noteq> Some (email req_user) \<and>
         findOne (\<lambda>u. Some (email u) = b_email body) (User s) \<noteq> None
      then (Inl (400, ''Email already taken''), s)
      else
        let updateData = (\<lambda>u::user. u
              \<lparr>fullName := or_else (b_fullName body) (fullName req_user),
               username := or_else (b_username body) (username req_user),
               email := or_else (b_email body) (email req_user),
               university := or_else (b_university body) (university req_user),
               major := or_else (b_major body) (major req_user),
               bio := or_else (b_bio body) (bio req_user),
               avatar := (case file of None \<Rightarrow> avatar u | Some path \<Rightarrow> path)\<rparr>);
            users' = findByIdAndUpdate (oid req_user) updateData (User s)
        in (Inr (''Profile updated successfully'', findById (oid req_user) users'),
            s\<lparr>User := users'\<rparr>))"

section \<open>Paginated listings\<close>

text \<open>
  Every listing handler carries the same lines:
  \<^verbatim>\<open>page = parseInt(req.query.page) || 1; limit = parseInt(req.query.limit) || 10\<close>,
  \<^verbatim>\<open>find(query).sort(..).skip((page - 1) * limit).limit(limit)\<close>,
  \<^verbatim>\<open>total = countDocuments(query)\<close> and \<^verbatim>\<open>pages: Math.ceil(total / limit)\<close>.
  A query parameter is the outcome of \<open>parseInt\<close>: an integer, or \<open>None\<close> for \<open>NaN\<close>.
  MongoDB refuses a negative skip, which the handler's \<open>catch\<close> answers with 500, reads a
  negative limit as its absolute value, and reads a skip or a limit beyond 64 bits as the
  largest 64-bit number, which is more than any collection holds. The query's matches in
  sort order are one fixed list per state; the order among equal \<open>createdAt\<close> stamps is the
  stable one of \<open>sort_key\<close>. A query that cannot be built or run (a pattern that is no
  regular expression, an identifier that is no ObjectId) throws, and the \<open>catch\<close> answers 500.
  \<open>total / limit\<close> divides doubles; its ceiling is the ceiling of the exact quotient while
  \<open>total\<close> is below \<open>2^53\<close>, which the size of a collection is.
\<close>

record list_query =
  q_page :: "int option"
  q_limit :: "int option"
  q_search :: string
  q_university :: string
  q_major :: string
  q_type :: string
  q_category :: string
  q_author :: "param option"

record pagination =
  pg_page :: int
  pg_limit :: int
  pg_total :: int
  pg_pages :: int

definition parse_or :: "int option \<Rightarrow> int \<Rightarrow> int" where
  "parse_or v d = (case v of None \<Rightarrow> d | Some n \<Rightarrow> if n = 0 then d else n)"

definition ceil_div :: "int \<Rightarrow> int \<Rightarrow> int" where
  "ceil_div n limit = - ((- n) div limit)"

definition paginate :: "int option \<Rightarrow> int option \<Rightarrow> 'a list \<Rightarrow> error + 'a list \<times> pagination" where
  "paginate pg lm matched =
     (let page = parse_or pg 1;
          limit = parse_or lm 10;
          skip = (page - 1) * limit;
          count = int (length matched)
      in if skip < 0 then Inl (500, ''Server error'')
         else Inr (take (nat \<bar>limit\<bar>) (drop (nat skip) matched),
                   \<lparr>pg_page = page, pg_limit = limit, pg_total = count,
                    pg_pages = ceil_div count limit\<rparr>))"

definition sort_desc :: "('a doc_scheme) list \<Rightarrow> ('a doc_scheme) list" where
  "sort_desc ds = rev (sort_key createdAt ds)"

definition sort_asc :: "('a doc_scheme) list \<Rightarrow> ('a doc_scheme) list" where
  "sort_asc ds = sort_key createdAt ds"

definition listing ::
  "int option \<Rightarrow> int option \<Rightarrow> error + 'a list \<Rightarrow> error + 'a list \<times> pagination" where
  "listing pg lm matches =
     (case matches of Inl e \<Rightarrow> Inl e | Inr matched \<Rightarrow> paginate pg lm matched)"

text \<open>The parameter \<open>rx\<close> stands for the regular expressions of a handler: \<open>rx pattern\<close> is
  \<open>None\<close> for a pattern that is refused, by the database behind \<open>$regex\<close> or, in the posts
  listing, by \<open>new RegExp\<close> before the query is sent, and otherwise the case-insensitive
  match of a subject against the pattern, which the database computes. A filter joins the
  query only when its string is not empty.\<close>

type_synonym regex = "string \<Rightarrow> (string \<Rightarrow> bool) option"

definition used :: "regex \<Rightarrow> string \<Rightarrow> (string \<Rightarrow> bool) option" where
  "used rx pattern = (if pattern = [] then Some (\<lambda>subject. True) else rx pattern)"




section \<open>routes/posts\<close>

text \<open>The category lists of the two route validators, in the order the source writes them, and
  the \<open>enum\<close> of the post schema.\<close>

definition create_categories :: "string list" where
  "create_categories =
     [''academic'', ''project'', ''research'', ''study-guide'', ''tutorial'', ''internship'',
      ''part-time'', ''full-time'', ''freelance'', ''research-assistant'', ''other'']"

definition update_categories :: "string list" where
  "update_categories =
     [''academic'', ''project'', ''research'', ''study-guide'', ''tutorial'', ''internship'',
      ''part-time'', ''full-time'', ''freelance'', ''research-assistant'', ''other'']"

definition schema_categories :: "string list" where
  "schema_categories =
     [''academic'', ''project'', ''research'', ''internship'', ''part-time'', ''full-time'',
      ''freelance'', ''other'']"

text \<open>A body field is a string or absent. \<open>isIn\<close> reads an absent field as the empty string;
  \<open>optional()\<close> lets an absent field pass.\<close>

definition isIn :: "string option \<Rightarrow> string list \<Rightarrow> bool" where
  "isIn v allowed = ((case v of None \<Rightarrow> [] | Some x \<Rightarrow> x) \<in> set allowed)"

definition create_category_valid :: "string option \<Rightarrow> bool" where
  "create_category_valid v = isIn v create_categories"

definition update_category_valid :: "string option \<Rightarrow> bool" where
  "update_category_valid v = (v = None \<or> isIn v update_categories)"

definition schema_category_valid :: "string \<Rightarrow> bool" where
  "schema_category_valid c = (c \<in> set schema_categories)"

text \<open>\<open>GET /\<close>: the query always carries \<open>isPublic: true\<close>. The author filter is cast to an
  ObjectId.\<close>

definition posts_query ::
  "(string \<Rightarrow> bool) \<Rightarrow> objectId option \<Rightarrow> list_query \<Rightarrow> post \<Rightarrow> bool" where
  "posts_query by_search wanted q p =
     (isPublic p \<and>
      (q_type q = [] \<or> ptype p = q_type q) \<and>
      (q_category q = [] \<or> category p = q_category q) \<and>
      (wanted = None \<or> Some (author p) = wanted) \<and>
      (by_search (title p) \<or> by_search (content p) \<or> list_ex by_search (tags p)))"

definition author_filter :: "param option \<Rightarrow> objectId option option" where
  "author_filter a =
     (case a of None \<Rightarrow> Some None | Some p \<Rightarrow> map_option Some (castObjectId p))"

definition posts_matches :: "regex \<Rightarrow> list_query \<Rightarrow> db \<Rightarrow> error + post list" where
  "posts_matches rx q s =
     (case used rx (q_search q) of
        None \<Rightarrow> Inl (500, ''Server error'')
      | Some by_search \<Rightarrow>
          (case author_filter (q_author q) of
             None \<Rightarrow> Inl (500, ''Server error'')
           | Some wanted \<Rightarrow>
               Inr (sort_desc (filter (posts_query by_search wanted q) (Post s)))))"

definition get_posts :: "regex \<Rightarrow> list_query \<Rightarrow> db \<Rightarrow> error + post list \<times> pagination" where
  "get_posts rx q s = listing (q_page q) (q_limit q) (posts_matches rx q s)"


text \<open>\<open>GET /:postId\<close>. \<open>views\<close> is a JavaScript number, a double: adding 1 is exact below
  \<open>2^53\<close>; from there on the stored counts are the even numbers, and from \<open>2^54\<close> on the
  multiples of 4, and the sum is rounded to the nearest of them, a tie going to the one with
  the even significand.\<close>

definition plus_one :: "nat \<Rightarrow> nat" where
  "plus_one n =
     (if n < 2 ^ 53 then n + 1
      else if n < 2 ^ 54 \<and> odd (n div 2) then n + 2
      else n)"







text \<open>\<open>POST /:postId/like\<close>.\<close>

definition like_post :: "user \<Rightarrow> objectId \<Rightarrow> db \<Rightarrow> (error + string \<times> bool) \<times> db" where
  "like_post req_user postId s =
     (case findById postId (Post s) of
        None \<Rightarrow> (Inl (404, ''Post not found''), s)
      | Some found \<Rightarrow>
          if array_includes (likes found) (oid req_user) then
            (Inr (''Post unliked successfully'', False),
             s\<lparr>Post := findByIdAndUpdate postId
                 (\<lambda>p. p\<lparr>likes := pull (oid req_user) (likes p)\<rparr>) (Post s)\<rparr>)
          else
            (Inr (''Post liked successfully'', True),
             s\<lparr>Post := findByIdAndUpdate postId
                 (\<lambda>p. p\<lparr>likes := push (oid req_user) (likes p)\<rparr>) (Post s)\<rparr>))"

text \<open>\<open>GET /user/:userId\<close>: \<open>isPublic: true\<close> joins the query unless the caller asks for
  their own posts.\<close>

definition user_posts_query ::
  "user option \<Rightarrow> param \<Rightarrow> objectId \<Rightarrow> list_query \<Rightarrow> post \<Rightarrow> bool" where
  "user_posts_query req_user userId wanted q p =
     (author p = wanted \<and>
      (q_type q = [] \<or> ptype p = q_type q) \<and>
      (if (case req_user of None \<Rightarrow> True | Some u \<Rightarrow> userId \<noteq> Canonical (oid u))
       then isPublic p else True))"

definition get_user_posts ::
  "user option \<Rightarrow> param \<Rightarrow> list_query \<Rightarrow> db \<Rightarrow> error + post list \<times> pagination" where
  "get_user_posts req_user userId q s =
     (case castObjectId userId of
        None \<Rightarrow> Inl (500, ''Server error'')
      | Some wanted \<Rightarrow>
          paginate (q_page q) (q_limit q)
            (sort_desc (filter (user_posts_query req_user userId wanted q) (Post s))))"



text \<open>\<open>DELETE /:postId/comments/:commentId\<close>: the post whose list is pulled is the one the
  route names.\<close>

definition delete_post_comment ::
  "user \<Rightarrow> objectId \<Rightarrow> objectId \<Rightarrow> db \<Rightarrow> (error + string) \<times> db" where
  "delete_post_comment req_user postId commentId s =
     (case findById commentId (Comment s) of
        None \<Rightarrow> (Inl (404, ''Comment not found''), s)
      | Some found \<Rightarrow>
          if c_author found \<noteq> oid req_user
          then (Inl (403, ''Not authorized to delete this comment''), s)
          else
            let posts' = findByIdAndUpdate postId
                  (\<lambda>p. p\<lparr>comments := pull commentId (comments p)\<rparr>) (Post s);
                detached = (case parentComment found of
                    None \<Rightarrow> Comment s
                  | Some parent \<Rightarrow> findByIdAndUpdate parent
                      (\<lambda>c. c\<lparr>replies := pull commentId (replies c)\<rparr>) (Comment s));
                without_replies = deleteMany (\<lambda>c. parentComment c = Some commentId) detached
            in (Inr ''Comment deleted successfully'',
                s\<lparr>Post := posts', Comment := findByIdAndDelete commentId without_replies\<rparr>))"

section \<open>routes/comments\<close>




text \<open>\<open>POST /\<close>. \<open>new_id\<close> and \<open>now\<close> are the ObjectId and the stamp the new document gets; the
  collection's unique index on \<open>_id\<close> refuses an identifier already in use, which the
  handler's \<open>catch\<close> answers with 500. A failed validation answers 400 with the validators'
  messages, of which the first is kept.\<close>

record comment_body =
  cb_content :: string
  cb_postId :: "objectId option"
  cb_parentCommentId :: "objectId option"

definition create_comment ::
  "user \<Rightarrow> comment_body \<Rightarrow> objectId \<Rightarrow> nat \<Rightarrow> db \<Rightarrow> (error + string \<times> comment option) \<times> db" where
  "create_comment req_user body new_id now s =
     (if cb_content body = [] then (Inl (400, ''Comment content is required''), s)
      else if length (cb_content body) > 1000 then (Inl (400, ''Invalid value''), s)
      else case cb_postId body of
        None \<Rightarrow> (Inl (400, ''Post ID is required''), s)
      | Some postId \<Rightarrow>
          (case findById postId (Post s) of
             None \<Rightarrow> (Inl (404, ''Post not found''), s)
           | Some found \<Rightarrow>
               if (case cb_parentCommentId body of
                     None \<Rightarrow> False
                   | Some parent \<Rightarrow> findById parent (Comment s) = None)
               then (Inl (404, ''Parent comment not found''), s)
               else if findById new_id (Comment s) \<noteq> None then (Inl (500, ''Server error''), s)
               else
                 let made = \<lparr>oid = new_id, createdAt = now, c_author = oid req_user,
                       c_post = postId, parentComment = cb_parentCommentId body,
                       c_content = cb_content body, replies = [], c_likes = []\<rparr>;
                     saved = Comment s @ [made];
                     linked = (case cb_parentCommentId body of
                         None \<Rightarrow> saved
                       | Some parent \<Rightarrow> findByIdAndUpdate parent
                           (\<lambda>c. c\<lparr>replies := push new_id (replies c)\<rparr>) saved);
                     posts' = findByIdAndUpdate postId
                       (\<lambda>p. p\<lparr>comments := push new_id (comments p)\<rparr>) (Post s)
                 in (Inr (''Comment created successfully'', findById new_id linked),
                     s\<lparr>Comment := linked, Post := posts'\<rparr>)))"

text \<open>\<open>DELETE /:commentId\<close>: the post whose list is pulled is the comment's own.\<close>

definition delete_comment :: "user \<Rightarrow> objectId \<Rightarrow> db \<Rightarrow> (error + string) \<times> db" where
  "delete_comment req_user commentId s =
     (case findById commentId (Comment s) of
        None \<Rightarrow> (Inl (404, ''Comment not found''), s)
      | Some found \<Rightarrow>
          if c_author found \<noteq> oid req_user
          then (Inl (403, ''Not authorized to delete this comment''), s)
          else
            let posts' = findByIdAndUpdate (c_post found)
                  (\<lambda>p. p\<lparr>comments := pull commentId (comments p)\<rparr>) (Post s);
                detached = (case parentComment found of
                    None \<Rightarrow> Comment s
                  | Some parent \<Rightarrow> findByIdAndUpdate parent
                      (\<lambda>c. c\<lparr>replies := pull commentId (replies c)\<rparr>) (Comment s));
                without_replies = deleteMany (\<lambda>c. parentComment c = Some commentId) detached
            in (Inr ''Comment deleted successfully'',
                s\<lparr>Post := posts', Comment := findByIdAndDelete commentId without_replies\<rparr>))"

text \<open>\<open>POST /:commentId/like\<close>.\<close>

definition like_comment :: "user \<Rightarrow> objectId \<Rightarrow> db \<Rightarrow> (error + string \<times> bool) \<times> db" where
  "like_comment req_user commentId s =
     (case findById commentId (Comment s) of
        None \<Rightarrow> (Inl (404, ''Comment not found''), s)
      | Some found \<Rightarrow>
          if array_includes (c_likes found) (oid req_user) then
            (Inr (''Comment unliked successfully'', False),
             s\<lparr>Comment := findByIdAndUpdate commentId
                 (\<lambda>c. c\<lparr>c_likes := pull (oid req_user) (c_likes c)\<rparr>) (Comment s)\<rparr>)
          else
            (Inr (''Comment liked successfully'', True),
             s\<lparr>Comment := findByIdAndUpdate commentId
                 (\<lambda>c. c\<lparr>c_likes := push (oid req_user) (c_likes c)\<rparr>) (Comment s)\<rparr>))"

section \<open>Walking the pages of a listing\<close>

text \<open>\<open>walk_pages fetch n\<close> asks for the pages \<open>1, \<dots>, n\<close> in order and concatenates the
  documents of the answers; a failed request contributes nothing.\<close>

definition walk_pages :: "(int \<Rightarrow> error + 'a list \<times> pagination) \<Rightarrow> int \<Rightarrow> 'a list" where
  "walk_pages fetch n =
     concat (map (\<lambda>k. case fetch k of Inl e \<Rightarrow> [] | Inr r \<Rightarrow> fst r) [1..n])"












section \<open>Invariants of the data model\<close>

text \<open>The followers and following lists mirror each other: for stored users \<open>x\<close> and \<open>y\<close>,
  \<open>y\<close> is in \<open>x\<close>'s following list exactly when \<open>x\<close> is in \<open>y\<close>'s followers list.\<close>

definition mirror :: "user list \<Rightarrow> bool" where
  "mirror us =
     list_all (\<lambda>x. list_all (\<lambda>y.
        case (findById x us, findById y us) of
          (Some a, Some b) \<Rightarrow> (y \<in> set (following a)) = (x \<in> set (followers b))
        | _ \<Rightarrow> True) (map oid us)) (map oid us)"

text \<open>No stored user is in their own followers or following list.\<close>

definition no_self :: "user list \<Rightarrow> bool" where
  "no_self us =
     list_all (\<lambda>x.
        case findById x us of
          None \<Rightarrow> True
        | Some a \<Rightarrow> x \<notin> set (followers a) \<and> x \<notin> set (following a)) (map oid us)"

section \<open>Example states\<close>

definition alice :: user where
  "alice = \<lparr>oid = 1, createdAt = 10, username = ''alice'', email = ''alice@uni.edu'',
     fullName = ''Alice A'', bio = ''hello'', avatar = [], university = ''MIT'',
     major = ''CS'', followers = [], following = []\<rparr>"

definition bob :: user where
  "bob = \<lparr>oid = 2, createdAt = 20, username = ''bob'', email = ''bob@uni.edu'',
     fullName = ''Bob B'', bio = [], avatar = [], university = ''MIT'',
     major = ''Math'', followers = [3], following = []\<rparr>"

definition carol :: user where
  "carol = \<lparr>oid = 3, createdAt = 30, username = ''carol'', email = ''carol@uni.edu'',
     fullName = ''Carol C'', bio = [], avatar = [], university = ''ETH'',
     major = ''CS'', followers = [], following = [2]\<rparr>"

definition dana :: user where
  "dana = \<lparr>oid = 171, createdAt = 40, username = ''dana'', email = ''dana@uni.edu'',
     fullName = ''Dana D'', bio = [], avatar = [], university = ''ETH'',
     major = ''Physics'', followers = [], following = []\<rparr>"

definition hall :: db where
  "hall = \<lparr>User = [alice, dana], Post = [], Comment = []\<rparr>"

definition campus :: db where
  "campus = \<lparr>User = [alice, bob, carol], Post = [], Comment = []\<rparr>"

definition blank_body :: profile_body where
  "blank_body = \<lparr>b_fullName = Some [], b_username = None, b_email = Some [],
     b_university = None, b_major = Some ''Physics'', b_bio = Some []\<rparr>"

definition note1 :: post where
  "note1 = \<lparr>oid = 10, createdAt = 100, author = 1, ptype = ''note'', title = ''Algebra notes'',
     content = ''groups and rings'', category = ''academic'', tags = [''math''],
     likes = [2], comments = [100, 101], views = 7, isPublic = True\<rparr>"

definition draft1 :: post where
  "draft1 = \<lparr>oid = 11, createdAt = 110, author = 1, ptype = ''note'', title = ''Draft'',
     content = ''unfinished'', category = ''project'', tags = [],
     likes = [], comments = [], views = 0, isPublic = False\<rparr>"

definition job1 :: post where
  "job1 = \<lparr>oid = 12, createdAt = 120, author = 2, ptype = ''job'', title = ''Lab assistant'',
     content = ''ten hours a week'', category = ''part-time'', tags = [''lab''],
     likes = [1, 3], comments = [102], views = 3, isPublic = True\<rparr>"

definition c100 :: comment where
  "c100 = \<lparr>oid = 100, createdAt = 130, c_author = 2, c_post = 10, parentComment = None,
     c_content = ''nice notes!'', replies = [101], c_likes = [1]\<rparr>"

definition c101 :: comment where
  "c101 = \<lparr>oid = 101, createdAt = 140, c_author = 3, c_post = 10, parentComment = Some 100,
     c_content = ''agreed'', replies = [], c_likes = []\<rparr>"

definition c102 :: comment where
  "c102 = \<lparr>oid = 102, createdAt = 150, c_author = 1, c_post = 12, parentComment = None,
     c_content = ''still open?'', replies = [], c_likes = []\<rparr>"

definition forum :: db where
  "forum = \<lparr>User = [alice, bob, carol], Post = [note1, draft1, job1],
     Comment = [c100, c101, c102]\<rparr>"

definition no_filter :: list_query where
  "no_filter = \<lparr>q_page = None, q_limit = None, q_search = [], q_university = [], q_major = [],
     q_type = [], q_category = [], q_author = None\<rparr>"

text \<open>A pattern engine for the examples: it refuses the pattern \<open>(\<close> and matches a subject that
  is the pattern.\<close>

definition plain :: regex where
  "plain pattern = (if pattern = ''('' then None else Some (\<lambda>subject. subject = pattern))"





definition reply_body :: comment_body where
  "reply_body = \<lparr>cb_content = ''me too'', cb_postId = Some 10, cb_parentCommentId = Some 100\<rparr>"

definition replied :: db where
  "replied = snd (create_comment carol reply_body 200 160 forum)"

section \<open>Lookups and updates\<close>

lemma findById_update:
  assumes "\<And>d. oid (f d) = oid d"
  shows "findById j (findByIdAndUpdate i f ds) =
           (if j = i then map_option f (findById i ds) else findById j ds)"
  by (induction ds) (auto simp: findById_def assms)

lemma update_update_same:
  assumes "\<And>d. oid (g d) = oid d"
  shows "findByIdAndUpdate i f (findByIdAndUpdate i g ds) = findByIdAndUpdate i (f \<circ> g) ds"
  by (induction ds) (auto simp: assms)

lemma update_commute:
  assumes "i \<noteq> j" "\<And>d. oid (f d) = oid d" "\<And>d. oid (g d) = oid d"
  shows "findByIdAndUpdate i f (findByIdAndUpdate j g ds) =
         findByIdAndUpdate j g (findByIdAndUpdate i f ds)"
  using assms(1) by (induction ds) (auto simp: assms(2,3))

lemma update_unchanged:
  assumes "\<And>d. findById i ds = Some d \<Longrightarrow> f d = d"
  shows "findByIdAndUpdate i f ds = ds"
  using assms by (induction ds) (auto simp: findById_def)

lemma findById_SomeD: "findById i ds = Some d \<Longrightarrow> i \<in> oid ` set ds \<and> oid d = i \<and> d \<in> set ds"
  by (induction ds) (auto simp: findById_def split: if_splits)

lemma mirror_iff:
  "mirror us \<longleftrightarrow>
     (\<forall>x y a b. findById x us = Some a \<longrightarrow> findById y us = Some b \<longrightarrow>
        (y \<in> set (following a)) = (x \<in> set (followers b)))"
  (is "?L \<longleftrightarrow> ?R")
proof
  assume L: ?L
  show ?R
  proof (intro allI impI)
    fix x y a b
    assume a: "findById x us = Some a" and b: "findById y us = Some b"
    from a b have "x \<in> oid ` set us" "y \<in> oid ` set us"
      by (auto dest: findById_SomeD)
    with L a b show "(y \<in> set (following a)) = (x \<in> set (followers b))"
      unfolding mirror_def list_all_iff by fastforce
  qed
next
  assume ?R
  then show ?L
    unfolding mirror_def list_all_iff by (auto split: option.splits)
qed

section \<open>Follow and unfollow\<close>

text \<open>
  The round trip when both requests name \<open>B\<close> as \<open>toString()\<close> writes it. Let the stored
  lists mirror each other, let \<open>A\<close> be the authenticated caller and \<open>B\<close> another stored user
  whom \<open>A\<close> does not follow. Then \<open>POST /B/follow\<close> succeeds and puts \<open>B\<close> at the end of
  \<open>A\<close>'s following list and \<open>A\<close> at the end of \<open>B\<close>'s followers list, and the
  \<open>DELETE /B/follow\<close> that comes next succeeds and leaves the users collection as it was
  before the follow; posts and comments are never touched.
\<close>

lemma round_trip_as_written:
  assumes inv: "mirror (User s)"
    and A: "authenticated s A"
    and B: "findById B (User s) = Some b"
    and distinct_users: "B \<noteq> oid A"
    and not_following: "\<not> includes_string (following A) (Canonical B)"
  shows "case follow A (Canonical B) s of (r1, s1) \<Rightarrow>
           r1 = Inr ''User followed successfully'' \<and>
           (\<exists>A1 b1. authenticated s1 A1 \<and> oid A1 = oid A \<and> findById B (User s1) = Some b1 \<and>
              following A1 = push B (following A) \<and> followers b1 = push (oid A) (followers b) \<and>
              (case unfollow A1 (Canonical B) s1 of (r2, s2) \<Rightarrow>
                 r2 = Inr ''User unfollowed successfully'' \<and>
                 User s2 = User s \<and> Post s2 = Post s \<and> Comment s2 = Comment s))"
proof -
  let ?pushB = "\<lambda>u::user. u\<lparr>following := push B (following u)\<rparr>"
  let ?pushA = "\<lambda>u::user. u\<lparr>followers := push (oid A) (followers u)\<rparr>"
  let ?pullB = "\<lambda>u::user. u\<lparr>following := pull B (following u)\<rparr>"
  let ?pullA = "\<lambda>u::user. u\<lparr>followers := pull (oid A) (followers u)\<rparr>"
  let ?us1 = "findByIdAndUpdate B ?pushA (findByIdAndUpdate (oid A) ?pushB (User s))"
  let ?s1 = "s\<lparr>User := ?us1\<rparr>"
  from A have A': "findById (oid A) (User s) = Some A"
    by (simp add: authenticated_def)
  from not_following have nf: "B \<notin> set (following A)"
    by (simp add: includes_string_def)
  from inv A' B nf have nfr: "oid A \<notin> set (followers b)"
    unfolding mirror_iff by blast
  have f1: "follow A (Canonical B) s = (Inr ''User followed successfully'', ?s1)"
    using A' B distinct_users not_following by (simp add: follow_def)
  have lookA: "findById (oid A) ?us1 = Some (?pushB A)"
    using A' distinct_users by (simp add: findById_update)
  have lookB: "findById B ?us1 = Some (?pushA b)"
    using B distinct_users by (simp add: findById_update)
  have restore: "findByIdAndUpdate B ?pullA (findByIdAndUpdate (oid A) ?pullB ?us1) = User s"
  proof -
    have "findByIdAndUpdate (oid A) ?pullB ?us1 =
          findByIdAndUpdate B ?pushA (findByIdAndUpdate (oid A) (?pullB \<circ> ?pushB) (User s))"
      using distinct_users
      by (simp add: update_commute [of "oid A" B] update_update_same)
    also have "findByIdAndUpdate (oid A) (?pullB \<circ> ?pushB) (User s) = User s"
      using A' nf by (intro update_unchanged) (simp add: push_def pull_def)
    finally have "findByIdAndUpdate B ?pullA (findByIdAndUpdate (oid A) ?pullB ?us1) =
          findByIdAndUpdate B (?pullA \<circ> ?pushA) (User s)"
      by (simp add: update_update_same)
    also have "\<dots> = User s"
      using B nfr by (intro update_unchanged) (simp add: push_def pull_def)
    finally show ?thesis .
  qed
  have f2: "unfollow (?pushB A) (Canonical B) ?s1 =
      (Inr ''User unfollowed successfully'', ?s1\<lparr>User := User s\<rparr>)"
    using lookA lookB distinct_users restore
    by (simp add: unfollow_def includes_string_def push_def)
  have "authenticated ?s1 (?pushB A)"
    using lookA by (simp add: authenticated_def)
  then show ?thesis
    using f1 f2 lookB by auto
qed

text \<open>
  Claim C1 fails by the not-following check of \<open>DELETE /:userId/follow\<close>, which is
  \<open>following.includes(req.params.userId)\<close> on the parameter string. Alice and Dana are
  distinct stored users, the lists mirror each other and Alice does not follow Dana, whose
  identifier is 171, in hexadecimal \<open>ab\<close>. Alice follows Dana under the identifier written
  with upper-case digits: the parameter casts to Dana's ObjectId and the follow succeeds.
  The unfollow under the same parameter finds no equal string in Alice's following list
  and is answered 400 "Not following this user": Dana stays in Alice's following list and
  Alice in Dana's followers list. The guards of the two handlers compare strings where
  they mean identifiers, as in claim C2. Named as \<open>toString()\<close> writes it, the round trip
  restores the lists (\<open>round_trip_as_written\<close>).
\<close>

theorem round_trip_fails_in_other_spelling:
  "spelled (Variant 171) \<and> castObjectId (Variant 171) = Some (oid dana) \<and>
   mirror (User hall) \<and> authenticated hall alice \<and> findById 171 (User hall) = Some dana \<and>
   oid dana \<noteq> oid alice \<and> oid dana \<notin> set (following alice) \<and>
   follow alice (Variant 171) hall =
     (Inr ''User followed successfully'',
      hall\<lparr>User := [alice\<lparr>following := [171]\<rparr>, dana\<lparr>followers := [1]\<rparr>]\<rparr>) \<and>
   authenticated (hall\<lparr>User := [alice\<lparr>following := [171]\<rparr>, dana\<lparr>followers := [1]\<rparr>]\<rparr>)
     (alice\<lparr>following := [171]\<rparr>) \<and>
   unfollow (alice\<lparr>following := [171]\<rparr>) (Variant 171)
       (hall\<lparr>User := [alice\<lparr>following := [171]\<rparr>, dana\<lparr>followers := [1]\<rparr>]\<rparr>) =
     (Inl (400, ''Not following this user''),
      hall\<lparr>User := [alice\<lparr>following := [171]\<rparr>, dana\<lparr>followers := [1]\<rparr>]\<rparr>) \<and>
   User (hall\<lparr>User := [alice\<lparr>following := [171]\<rparr>, dana\<lparr>followers := [1]\<rparr>]\<rparr>) \<noteq> User hall"
proof -
  have a: "spelled (Variant 171)" "castObjectId (Variant 171) = Some (oid dana)"
    by (simp_all add: spelled_def dana_def)
  have b: "mirror (User hall)" "authenticated hall alice" "findById 171 (User hall) = Some dana"
    "oid dana \<noteq> oid alice" "oid dana \<notin> set (following alice)"
    by (simp_all add: mirror_def authenticated_def findById_def hall_def alice_def dana_def)
  have c: "follow alice (Variant 171) hall =
     (Inr ''User followed successfully'',
      hall\<lparr>User := [alice\<lparr>following := [171]\<rparr>, dana\<lparr>followers := [1]\<rparr>]\<rparr>)"
    by (simp add: follow_def includes_string_def findById_def hall_def alice_def dana_def push_def)
  have d: "authenticated (hall\<lparr>User := [alice\<lparr>following := [171]\<rparr>, dana\<lparr>followers := [1]\<rparr>]\<rparr>)
     (alice\<lparr>following := [171]\<rparr>)"
    by (simp add: authenticated_def findById_def)
  have e: "unfollow (alice\<lparr>following := [171]\<rparr>) (Variant 171)
       (hall\<lparr>User := [alice\<lparr>following := [171]\<rparr>, dana\<lparr>followers := [1]\<rparr>]\<rparr>) =
     (Inl (400, ''Not following this user''),
      hall\<lparr>User := [alice\<lparr>following := [171]\<rparr>, dana\<lparr>followers := [1]\<rparr>]\<rparr>)"
    by (simp add: unfollow_def includes_string_def findById_def alice_def dana_def)
  have f: "User (hall\<lparr>User := [alice\<lparr>following := [171]\<rparr>, dana\<lparr>followers := [1]\<rparr>]\<rparr>) \<noteq> User hall"
    by (simp add: hall_def alice_def dana_def)
  from a b c d e f show ?thesis
    by (intro conjI)
qed

lemma no_self_iff:
  "no_self us \<longleftrightarrow>
     (\<forall>x a. findById x us = Some a \<longrightarrow> x \<notin> set (followers a) \<and> x \<notin> set (following a))"
  (is "?L \<longleftrightarrow> ?R")
proof
  assume L: ?L
  show ?R
  proof (intro allI impI)
    fix x a
    assume a: "findById x us = Some a"
    then have "x \<in> oid ` set us"
      by (auto dest: findById_SomeD)
    with L a show "x \<notin> set (followers a) \<and> x \<notin> set (following a)"
      unfolding no_self_def list_all_iff by fastforce
  qed
next
  assume ?R
  then show ?L
    unfolding no_self_def list_all_iff by (auto split: option.splits)
qed

lemma set_pull [simp]: "set (pull x xs) = set xs - {x}"
  by (auto simp: pull_def)

lemma set_push [simp]: "set (push x xs) = insert x (set xs)"
  by (simp add: push_def)

text \<open>The mirror property holds of users with empty lists and is kept by every follow and
  unfollow request, whatever its parameter.\<close>

lemma mirror_follow:
  assumes "mirror (User s)"
  shows "mirror (User (snd (follow u p s)))"
  using assms unfolding mirror_iff follow_def
  by (auto simp: findById_update split: option.splits if_splits)

lemma mirror_unfollow:
  assumes "mirror (User s)"
  shows "mirror (User (snd (unfollow u p s)))"
  using assms unfolding mirror_iff unfollow_def
  by (auto simp: findById_update split: option.splits if_splits)

lemma mirror_handle: "mirror (User s) \<Longrightarrow> mirror (User (handle_user_request r s))"
  by (cases r) (auto simp: mirror_follow mirror_unfollow split: option.splits)

lemma mirror_run: "mirror (User s) \<Longrightarrow> mirror (User (run_user_requests rs s))"
  by (induction rs arbitrary: s) (auto simp: mirror_handle)

lemma fresh_users:
  assumes "\<forall>u\<in>set us. followers u = [] \<and> following u = []"
  shows "mirror us" and "no_self us"
proof -
  have empty: "findById x us = Some a \<Longrightarrow> followers a = [] \<and> following a = []" for x a
    using assms by (auto dest: findById_SomeD)
  show "mirror us"
    unfolding mirror_iff by (auto dest: empty)
  show "no_self us"
    unfolding no_self_iff by (auto dest: empty)
qed

text \<open>A request keeps users out of their own lists unless it names the caller in another
  spelling.\<close>

lemma no_self_follow:
  assumes "no_self (User s)" "castObjectId p \<noteq> Some (oid u) \<or> p = Canonical (oid u)"
  shows "no_self (User (snd (follow u p s)))"
  using assms unfolding no_self_iff follow_def
  by (auto simp: findById_update split: option.splits if_splits)

lemma no_self_unfollow:
  assumes "no_self (User s)"
  shows "no_self (User (snd (unfollow u p s)))"
  using assms unfolding no_self_iff unfollow_def
  by (auto simp: findById_update split: option.splits if_splits)

lemma self_request_rejected:
  "follow u (Canonical (oid u)) s = (Inl (400, ''You cannot follow yourself''), s)"
  "unfollow u (Canonical (oid u)) s = (Inl (400, ''You cannot unfollow yourself''), s)"
  by (simp_all add: follow_def unfollow_def)

lemma no_self_handle:
  assumes "no_self (User s)" "own_id_as_written r"
  shows "no_self (User (handle_user_request r s))"
proof (cases r)
  case (Follow caller p)
  show ?thesis
  proof (cases "findById caller (User s)")
    case None
    with Follow assms show ?thesis by simp
  next
    case (Some u)
    then have "oid u = caller"
      by (simp add: findById_SomeD)
    with Follow Some assms show ?thesis
      by (simp add: no_self_follow)
  qed
next
  case (Unfollow caller p)
  with assms show ?thesis
    by (simp add: no_self_unfollow split: option.splits)
qed

lemma no_self_run:
  assumes "no_self (User s)" "list_all own_id_as_written rs"
  shows "no_self (User (run_user_requests rs s))"
  using assms by (induction rs arbitrary: s) (simp_all add: no_self_handle)

text \<open>
  Claim C2 fails by the self-check of \<open>POST /:userId/follow\<close>, which compares the parameter
  string with \<open>req.user._id.toString()\<close>. The caller's own identifier written with an
  upper-case digit is a different string and casts to the same ObjectId: the check lets it
  pass, \<open>findById\<close> finds the caller, \<open>includes\<close> finds no equal string, and the caller is
  pushed into their own following and followers lists. Dana's identifier is 171, in
  hexadecimal \<open>ab\<close>. Requests that name the caller as \<open>toString()\<close> writes them are answered
  400 (\<open>self_request_rejected\<close>), and runs without a follow of the caller in another
  spelling keep every user out of their own lists (\<open>no_self_run\<close>).
\<close>

theorem self_follow_in_other_spelling:
  "spelled (Variant 171) \<and> castObjectId (Variant 171) = Some (oid dana) \<and>
   authenticated hall dana \<and> no_self (User hall) \<and>
   follow dana (Variant 171) hall =
     (Inr ''User followed successfully'',
      hall\<lparr>User := [alice, dana\<lparr>followers := [171], following := [171]\<rparr>]\<rparr>) \<and>
   \<not> no_self (User (snd (follow dana (Variant 171) hall))) \<and>
   \<not> no_self (User (run_user_requests [Follow 171 (Variant 171)] hall))"
proof -
  have a: "spelled (Variant 171)"
    by (simp add: spelled_def)
  have b: "castObjectId (Variant 171) = Some (oid dana)" "authenticated hall dana"
    "no_self (User hall)"
    by (simp_all add: authenticated_def no_self_def findById_def hall_def alice_def dana_def)
  have c: "follow dana (Variant 171) hall =
     (Inr ''User followed successfully'',
      hall\<lparr>User := [alice, dana\<lparr>followers := [171], following := [171]\<rparr>]\<rparr>)"
    by (simp add: follow_def includes_string_def findById_def hall_def alice_def dana_def push_def)
  have d: "\<not> no_self [alice, dana\<lparr>followers := [171], following := [171]\<rparr>]"
    by (simp add: no_self_def findById_def alice_def dana_def)
  have e: "findById 171 (User hall) = Some dana"
    by (simp add: findById_def hall_def alice_def dana_def)
  from a b c d e show ?thesis
    by simp
qed

section \<open>Profile update\<close>

text \<open>
  Claim C10. \<open>PUT /profile\<close> by an authenticated caller: a field among fullName, username,
  email, university, major and bio that the body leaves out or gives as the empty string
  keeps its stored value, whatever the other fields are and whether or not the request is
  refused for a taken username or email; and a field that is empty after the request was
  empty before it, so the endpoint never clears a field.
\<close>

theorem profile_update_keeps_field_on_falsy:
  assumes "authenticated s req_user"
  shows "\<exists>u'. findById (oid req_user) (User (snd (update_profile req_user body file s))) = Some u' \<and>
     (b_fullName body = None \<or> b_fullName body = Some [] \<longrightarrow> fullName u' = fullName req_user) \<and>
     (b_username body = None \<or> b_username body = Some [] \<longrightarrow> username u' = username req_user) \<and>
     (b_email body = None \<or> b_email body = Some [] \<longrightarrow> email u' = email req_user) \<and>
     (b_university body = None \<or> b_university body = Some [] \<longrightarrow> university u' = university req_user) \<and>
     (b_major body = None \<or> b_major body = Some [] \<longrightarrow> major u' = major req_user) \<and>
     (b_bio body = None \<or> b_bio body = Some [] \<longrightarrow> bio u' = bio req_user) \<and>
     (fullName u' = [] \<longrightarrow> fullName req_user = []) \<and>
     (username u' = [] \<longrightarrow> username req_user = []) \<and>
     (email u' = [] \<longrightarrow> email req_user = []) \<and>
     (university u' = [] \<longrightarrow> university req_user = []) \<and>
     (major u' = [] \<longrightarrow> major req_user = []) \<and>
     (bio u' = [] \<longrightarrow> bio req_user = [])"
proof -
  from assms have look: "findById (oid req_user) (User s) = Some req_user"
    by (simp add: authenticated_def)
  have or_else_empty: "or_else v d = [] \<Longrightarrow> d = []" for v d
    by (auto simp: or_else_def split: option.splits if_splits)
  have or_else_falsy: "v = None \<or> v = Some [] \<Longrightarrow> or_else v d = d" for v d
    by (auto simp: or_else_def)
  show ?thesis
    using look
    by (auto simp: update_profile_def Let_def findById_update or_else_falsy dest: or_else_empty)
qed

theorem profile_update_keeps_field_on_falsy_witness:
  "authenticated campus alice \<and>
   (\<exists>u'. findById 1 (User (snd (update_profile alice blank_body None campus))) = Some u' \<and>
      fullName u' = ''Alice A'' \<and> username u' = ''alice'' \<and> email u' = ''alice@uni.edu'' \<and>
      university u' = ''MIT'' \<and> major u' = ''Physics'' \<and> bio u' = ''hello'')"
proof -
  have h: "authenticated campus alice"
    by (simp add: authenticated_def findById_def campus_def alice_def)
  from profile_update_keeps_field_on_falsy [OF h, of blank_body None] h show ?thesis
    apply (simp add: blank_body_def)
    apply (simp add: update_profile_def findById_def campus_def alice_def bob_def carol_def Let_def truthy_def or_else_def findOne_def)
    done
qed

section \<open>Single post: views and likes\<close>



lemma plus_one_at_two_to_53: "plus_one (2 ^ 53) = 2 ^ 53"
  by (simp add: plus_one_def)








lemma count_list_push: "count_list (push x xs) y = count_list xs y + (if x = y then 1 else 0)"
  by (induction xs) (auto simp: push_def)

lemma count_list_pull: "count_list (pull x xs) y = (if x = y then 0 else count_list xs y)"
  by (induction xs) (auto simp: pull_def)

lemma count_list_zero: "x \<notin> set xs \<Longrightarrow> count_list xs x = 0"
  by (induction xs) auto

lemma like_post_result:
  assumes "findById postId (Post s) = Some p"
  shows "like_post u postId s =
     (if oid u \<in> set (likes p)
      then (Inr (''Post unliked successfully'', False),
            s\<lparr>Post := findByIdAndUpdate postId (\<lambda>p. p\<lparr>likes := pull (oid u) (likes p)\<rparr>) (Post s)\<rparr>)
      else (Inr (''Post liked successfully'', True),
            s\<lparr>Post := findByIdAndUpdate postId (\<lambda>p. p\<lparr>likes := push (oid u) (likes p)\<rparr>) (Post s)\<rparr>))"
  using assms by (simp add: like_post_def array_includes_def)

lemma like_post_lookup:
  assumes "findById postId (Post s) = Some p"
  shows "findById postId (Post (snd (like_post u postId s))) =
     Some (p\<lparr>likes := (if oid u \<in> set (likes p) then pull (oid u) (likes p) else push (oid u) (likes p))\<rparr>)"
  using assms by (simp add: like_post_result findById_update)

lemma like_comment_result:
  assumes "findById commentId (Comment s) = Some c"
  shows "like_comment u commentId s =
     (if oid u \<in> set (c_likes c)
      then (Inr (''Comment unliked successfully'', False),
            s\<lparr>Comment := findByIdAndUpdate commentId (\<lambda>c. c\<lparr>c_likes := pull (oid u) (c_likes c)\<rparr>) (Comment s)\<rparr>)
      else (Inr (''Comment liked successfully'', True),
            s\<lparr>Comment := findByIdAndUpdate commentId (\<lambda>c. c\<lparr>c_likes := push (oid u) (c_likes c)\<rparr>) (Comment s)\<rparr>))"
  using assms by (simp add: like_comment_def array_includes_def)

lemma like_comment_lookup:
  assumes "findById commentId (Comment s) = Some c"
  shows "findById commentId (Comment (snd (like_comment u commentId s))) =
     Some (c\<lparr>c_likes := (if oid u \<in> set (c_likes c) then pull (oid u) (c_likes c) else push (oid u) (c_likes c))\<rparr>)"
  using assms by (simp add: like_comment_result findById_update)

text \<open>
  Claim C4. \<open>POST /:postId/like\<close> on a stored post, and \<open>POST /:commentId/like\<close> on a stored
  comment, toggle the caller in the likes list: a caller who is not in the list is appended
  once and the answer says \<open>liked: true\<close>; a caller who is in the list is removed from it
  altogether and the answer says \<open>liked: false\<close>. After two like calls in a row by the same
  caller the list holds the caller at most once.
\<close>

theorem like_toggles_membership:
  "(findById postId (Post s) = Some p \<longrightarrow>
      (\<exists>p' p''.
         findById postId (Post (snd (like_post u postId s))) = Some p' \<and>
         findById postId (Post (snd (like_post u postId (snd (like_post u postId s))))) = Some p'' \<and>
         (oid u \<notin> set (likes p) \<longrightarrow>
            fst (like_post u postId s) = Inr (''Post liked successfully'', True) \<and>
            likes p' = likes p @ [oid u] \<and> count_list (likes p') (oid u) = 1) \<and>
         (oid u \<in> set (likes p) \<longrightarrow>
            fst (like_post u postId s) = Inr (''Post unliked successfully'', False) \<and>
            likes p' = removeAll (oid u) (likes p) \<and> oid u \<notin> set (likes p')) \<and>
         count_list (likes p'') (oid u) \<le> 1)) \<and>
   (findById commentId (Comment s) = Some c \<longrightarrow>
      (\<exists>c' c''.
         findById commentId (Comment (snd (like_comment u commentId s))) = Some c' \<and>
         findById commentId (Comment (snd (like_comment u commentId (snd (like_comment u commentId s))))) = Some c'' \<and>
         (oid u \<notin> set (c_likes c) \<longrightarrow>
            fst (like_comment u commentId s) = Inr (''Comment liked successfully'', True) \<and>
            c_likes c' = c_likes c @ [oid u] \<and> count_list (c_likes c') (oid u) = 1) \<and>
         (oid u \<in> set (c_likes c) \<longrightarrow>
            fst (like_comment u commentId s) = Inr (''Comment unliked successfully'', False) \<and>
            c_likes c' = removeAll (oid u) (c_likes c) \<and> oid u \<notin> set (c_likes c')) \<and>
         count_list (c_likes c'') (oid u) \<le> 1))"
proof (intro conjI impI)
  assume p: "findById postId (Post s) = Some p"
  let ?p' = "p\<lparr>likes := (if oid u \<in> set (likes p) then pull (oid u) (likes p) else push (oid u) (likes p))\<rparr>"
  let ?p'' = "?p'\<lparr>likes := (if oid u \<in> set (likes ?p') then pull (oid u) (likes ?p') else push (oid u) (likes ?p'))\<rparr>"
  have 1: "findById postId (Post (snd (like_post u postId s))) = Some ?p'"
    by (rule like_post_lookup [OF p])
  have 2: "findById postId (Post (snd (like_post u postId (snd (like_post u postId s))))) = Some ?p''"
    by (rule like_post_lookup [OF 1])
  have 3: "count_list (likes ?p'') (oid u) \<le> 1"
    by (simp add: count_list_push count_list_pull count_list_zero)
  have 4: "oid u \<notin> set (likes p) \<longrightarrow>
            fst (like_post u postId s) = Inr (''Post liked successfully'', True) \<and>
            likes ?p' = likes p @ [oid u] \<and> count_list (likes ?p') (oid u) = 1"
    by (simp add: like_post_result [OF p] count_list_push count_list_zero) (simp add: push_def)
  have 5: "oid u \<in> set (likes p) \<longrightarrow>
            fst (like_post u postId s) = Inr (''Post unliked successfully'', False) \<and>
            likes ?p' = removeAll (oid u) (likes p) \<and> oid u \<notin> set (likes ?p')"
    by (simp add: like_post_result [OF p]) (simp add: pull_def)
  from 1 2 3 4 5 show "\<exists>p' p''.
         findById postId (Post (snd (like_post u postId s))) = Some p' \<and>
         findById postId (Post (snd (like_post u postId (snd (like_post u postId s))))) = Some p'' \<and>
         (oid u \<notin> set (likes p) \<longrightarrow>
            fst (like_post u postId s) = Inr (''Post liked successfully'', True) \<and>
            likes p' = likes p @ [oid u] \<and> count_list (likes p') (oid u) = 1) \<and>
         (oid u \<in> set (likes p) \<longrightarrow>
            fst (like_post u postId s) = Inr (''Post unliked successfully'', False) \<and>
            likes p' = removeAll (oid u) (likes p) \<and> oid u \<notin> set (likes p')) \<and>
         count_list (likes p'') (oid u) \<le> 1"
    by blast
next
  assume c: "findById commentId (Comment s) = Some c"
  let ?c' = "c\<lparr>c_likes := (if oid u \<in> set (c_likes c) then pull (oid u) (c_likes c) else push (oid u) (c_likes c))\<rparr>"
  let ?c'' = "?c'\<lparr>c_likes := (if oid u \<in> set (c_likes ?c') then pull (oid u) (c_likes ?c') else push (oid u) (c_likes ?c'))\<rparr>"
  have 1: "findById commentId (Comment (snd (like_comment u commentId s))) = Some ?c'"
    by (rule like_comment_lookup [OF c])
  have 2: "findById commentId (Comment (snd (like_comment u commentId (snd (like_comment u commentId s))))) = Some ?c''"
    by (rule like_comment_lookup [OF 1])
  have 3: "count_list (c_likes ?c'') (oid u) \<le> 1"
    by (simp add: count_list_push count_list_pull count_list_zero)
  have 4: "oid u \<notin> set (c_likes c) \<longrightarrow>
            fst (like_comment u commentId s) = Inr (''Comment liked successfully'', True) \<and>
            c_likes ?c' = c_likes c @ [oid u] \<and> count_list (c_likes ?c') (oid u) = 1"
    by (simp add: like_comment_result [OF c] count_list_push count_list_zero) (simp add: push_def)
  have 5: "oid u \<in> set (c_likes c) \<longrightarrow>
            fst (like_comment u commentId s) = Inr (''Comment unliked successfully'', False) \<and>
            c_likes ?c' = removeAll (oid u) (c_likes c) \<and> oid u \<notin> set (c_likes ?c')"
    by (simp add: like_comment_result [OF c]) (simp add: pull_def)
  from 1 2 3 4 5 show "\<exists>c' c''.
         findById commentId (Comment (snd (like_comment u commentId s))) = Some c' \<and>
         findById commentId (Comment (snd (like_comment u commentId (snd (like_comment u commentId s))))) = Some c'' \<and>
         (oid u \<notin> set (c_likes c) \<longrightarrow>
            fst (like_comment u commentId s) = Inr (''Comment liked successfully'', True) \<and>
            c_likes c' = c_likes c @ [oid u] \<and> count_list (c_likes c') (oid u) = 1) \<and>
         (oid u \<in> set (c_likes c) \<longrightarrow>
            fst (like_comment u commentId s) = Inr (''Comment unliked successfully'', False) \<and>
            c_likes c' = removeAll (oid u) (c_likes c) \<and> oid u \<notin> set (c_likes c')) \<and>
         count_list (c_likes c'') (oid u) \<le> 1"
    by blast
qed

theorem like_toggles_membership_witness:
  "findById 10 (Post forum) = Some note1 \<and> findById 100 (Comment forum) = Some c100 \<and>
   oid carol \<notin> set (likes note1) \<and>
   fst (like_post carol 10 forum) = Inr (''Post liked successfully'', True) \<and>
   map_option likes (findById 10 (Post (snd (like_post carol 10 forum)))) = Some [2, 3] \<and>
   map_option likes (findById 10 (Post (snd (like_post carol 10 (snd (like_post carol 10 forum))))))
     = Some [2] \<and>
   oid carol \<notin> set (c_likes c100) \<and>
   fst (like_comment carol 100 forum) = Inr (''Comment liked successfully'', True) \<and>
   map_option c_likes (findById 100 (Comment (snd (like_comment carol 100 forum)))) = Some [1, 3] \<and>
   oid bob \<in> set (likes note1) \<and>
   fst (like_post bob 10 forum) = Inr (''Post unliked successfully'', False) \<and>
   map_option likes (findById 10 (Post (snd (like_post bob 10 forum)))) = Some [] \<and>
   oid alice \<in> set (c_likes c100) \<and>
   fst (like_comment alice 100 forum) = Inr (''Comment unliked successfully'', False) \<and>
   map_option c_likes (findById 100 (Comment (snd (like_comment alice 100 forum)))) = Some []"
proof -
  have h: "findById 10 (Post forum) = Some note1" "findById 100 (Comment forum) = Some c100"
    by (simp_all add: findById_def forum_def note1_def c100_def)
  have v: "likes note1 = [2]" "c_likes c100 = [1]" "oid alice = 1" "oid bob = 2" "oid carol = 3"
    by (simp_all add: note1_def c100_def alice_def bob_def carol_def)
  have again: "map_option likes
      (findById 10 (Post (snd (like_post carol 10 (snd (like_post carol 10 forum)))))) = Some [2]"
    using h v
    by (simp add: like_post_lookup [OF like_post_lookup] like_post_lookup push_def pull_def)
  from like_toggles_membership [of 10 forum note1 carol 100 c100]
    like_toggles_membership [of 10 forum note1 bob 100 c100]
    like_toggles_membership [of 10 forum note1 alice 100 c100] h v again
  show ?thesis
    by (auto simp: pull_def)
qed

section \<open>Category validation\<close>

text \<open>
  Claim C7 says that some category value passes the update validator and fails the create
  validator. None does: the two route validators carry the same list.
\<close>

theorem category_lists_differ_counterexample:
  "\<not> (\<exists>c. update_category_valid (Some c) \<and> \<not> create_category_valid (Some c))"
proof -
  have "update_categories = create_categories"
    by (simp add: update_categories_def create_categories_def)
  then show ?thesis
    by (simp add: update_category_valid_def create_category_valid_def)
qed

text \<open>
  Claim C7, as amended. The create and the update route validators list the same eleven
  categories, so a category value passes both or neither; the update validator alone lets
  the field be absent. The list that differs is the post schema's \<open>enum\<close>: it is the route
  list without study-guide, tutorial and research-assistant, which are thus the values a
  route validator accepts and the schema does not list.
\<close>

theorem category_lists_agree:
  "update_categories = create_categories \<and>
   update_category_valid (Some c) = create_category_valid (Some c) \<and>
   update_category_valid None \<and> \<not> create_category_valid None \<and>
   set schema_categories \<subseteq> set create_categories \<and>
   set create_categories - set schema_categories =
     {''study-guide'', ''tutorial'', ''research-assistant''} \<and>
   (create_category_valid (Some c) \<and> \<not> schema_category_valid c) =
     (c \<in> {''study-guide'', ''tutorial'', ''research-assistant''})"
proof -
  have same: "update_categories = create_categories"
    by (simp add: update_categories_def create_categories_def)
  have valid: "update_category_valid (Some c) = create_category_valid (Some c)"
    by (simp add: update_category_valid_def create_category_valid_def same)
  have absent: "update_category_valid None" "\<not> create_category_valid None"
    by (simp_all add: update_category_valid_def create_category_valid_def isIn_def
        create_categories_def)
  have sub: "set schema_categories \<subseteq> set create_categories"
    by (simp add: schema_categories_def create_categories_def)
  have diff: "set create_categories - set schema_categories =
     {''study-guide'', ''tutorial'', ''research-assistant''}"
    by (simp add: schema_categories_def create_categories_def insert_Diff_if)
  have "(create_category_valid (Some c) \<and> \<not> schema_category_valid c) =
     (c \<in> set create_categories - set schema_categories)"
    by (simp add: create_category_valid_def schema_category_valid_def isIn_def)
  with same valid absent sub diff show ?thesis
    by simp
qed

section \<open>Pagination\<close>

lemma ceil_div_ceiling: "ceil_div n limit = \<lceil>real_of_int n / real_of_int limit\<rceil>"
proof -
  have "\<lceil>real_of_int n / real_of_int limit\<rceil> = - \<lfloor>real_of_int (- n) / real_of_int limit\<rfloor>"
    by (simp add: ceiling_def)
  also have "\<dots> = - ((- n) div limit)"
    by (simp only: floor_divide_of_int_eq)
  finally show ?thesis
    by (simp add: ceil_div_def)
qed

lemma concat_slices:
  "concat (map (\<lambda>k. take L (drop (k * L) xs)) [0..<m]) = take (m * L) xs"
proof (induction m)
  case 0
  then show ?case by simp
next
  case (Suc m)
  have "Suc m * L = m * L + L"
    by simp
  then have "take (Suc m * L) xs = take (m * L) xs @ take L (drop (m * L) xs)"
    by (simp only: take_add)
  with Suc show ?case by simp
qed

lemma upto_from_one: "[1..int m] = map (\<lambda>k. int k + 1) [0..<m]"
proof (induction m)
  case 0
  then show ?case by simp
next
  case (Suc m)
  have "[1..int (Suc m)] = [1..int m] @ [int m + 1]"
    using upto_rec2 [of 1 "int m + 1"] by (simp add: add.commute)
  with Suc show ?case by simp
qed

lemma ceil_div_covers:
  assumes "0 < limit"
  shows "0 \<le> ceil_div (int n) limit" "n \<le> nat (ceil_div (int n) limit) * nat limit"
proof -
  let ?m = "ceil_div (int n) limit"
  have m: "real_of_int ?m = of_int \<lceil>real n / real_of_int limit\<rceil>"
    using ceil_div_ceiling [of "int n" limit] by simp
  have "0 \<le> real n / real_of_int limit"
    using assms by simp
  then have "0 \<le> \<lceil>real n / real_of_int limit\<rceil>"
    by linarith
  then show nonneg: "0 \<le> ?m"
    using ceil_div_ceiling [of "int n" limit] by simp
  have "real n / real_of_int limit \<le> real_of_int ?m"
    unfolding m by linarith
  then have "real n \<le> real_of_int ?m * real_of_int limit"
    using assms by (simp add: pos_divide_le_eq)
  then have "int n \<le> ?m * limit"
    by (metis of_int_le_iff of_int_mult of_int_of_nat_eq)
  then show "n \<le> nat ?m * nat limit"
    using nonneg assms by (metis nat_int nat_mono nat_mult_distrib)
qed

lemma paginate_page:
  assumes "0 < parse_or lm 10" "1 \<le> k"
  shows "paginate (Some k) lm xs =
     Inr (take (nat (parse_or lm 10)) (drop (nat ((k - 1) * parse_or lm 10)) xs),
          \<lparr>pg_page = k, pg_limit = parse_or lm 10, pg_total = int (length xs),
           pg_pages = ceil_div (int (length xs)) (parse_or lm 10)\<rparr>)"
proof -
  from assms(2) have k: "parse_or (Some k) 1 = k"
    by (simp add: parse_or_def)
  from assms have "0 \<le> (k - 1) * parse_or lm 10"
    by simp
  then have "\<not> (k - 1) * parse_or lm 10 < 0"
    by linarith
  with assms(1) show ?thesis
    by (simp add: paginate_def Let_def k)
qed

lemma walk_paginate:
  assumes "0 < parse_or lm 10"
  shows "walk_pages (\<lambda>k. paginate (Some k) lm xs) (ceil_div (int (length xs)) (parse_or lm 10)) = xs"
proof -
  let ?L = "parse_or lm 10"
  let ?m = "ceil_div (int (length xs)) ?L"
  let ?M = "nat ?m"
  from ceil_div_covers [OF assms, of "length xs"]
  have m: "?m = int ?M" and cover: "length xs \<le> ?M * nat ?L"
    by simp_all
  have slice: "(case paginate (Some (int j + 1)) lm xs of Inl e \<Rightarrow> [] | Inr r \<Rightarrow> fst r) =
      take (nat ?L) (drop (j * nat ?L) xs)" for j
  proof -
    have "nat (int j * ?L) = j * nat ?L"
      using assms by (simp add: nat_mult_distrib)
    then show ?thesis
      using paginate_page [OF assms, of "int j + 1" xs] by simp
  qed
  have "walk_pages (\<lambda>k. paginate (Some k) lm xs) (int M) =
        concat (map (\<lambda>j. take (nat ?L) (drop (j * nat ?L) xs)) [0..<M])" for M
    by (simp add: walk_pages_def upto_from_one comp_def slice)
  then have "walk_pages (\<lambda>k. paginate (Some k) lm xs) (int ?M) = take (?M * nat ?L) xs"
    by (simp only: concat_slices)
  also have "\<dots> = xs"
    using cover by simp
  finally show ?thesis
    by (simp only: m [symmetric])
qed


lemma set_sort_desc: "set (sort_desc ds) = set ds"
  by (simp add: sort_desc_def)

lemma set_sort_asc: "set (sort_asc ds) = set ds"
  by (simp add: sort_asc_def)

lemma distinct_sort_desc: "distinct (sort_desc ds) = distinct ds"
  by (simp add: sort_desc_def)

lemma distinct_sort_asc: "distinct (sort_asc ds) = distinct ds"
  by (simp add: sort_asc_def)

lemma paginate_reports_ceiling:
  assumes "paginate pg lm xs = Inr (docs, p)"
  shows "pg_total p = int (length xs)"
    and "pg_pages p = \<lceil>real_of_int (pg_total p) / real_of_int (pg_limit p)\<rceil>"
    and "set docs \<subseteq> set xs"
proof -
  from assms have p: "p = \<lparr>pg_page = parse_or pg 1, pg_limit = parse_or lm 10,
      pg_total = int (length xs), pg_pages = ceil_div (int (length xs)) (parse_or lm 10)\<rparr>"
    and docs: "docs = take (nat \<bar>parse_or lm 10\<bar>) (drop (nat ((parse_or pg 1 - 1) * parse_or lm 10)) xs)"
    by (auto simp: paginate_def Let_def split: if_splits)
  show "pg_total p = int (length xs)"
    by (simp add: p)
  show "pg_pages p = \<lceil>real_of_int (pg_total p) / real_of_int (pg_limit p)\<rceil>"
    by (simp add: p ceil_div_ceiling)
  show "set docs \<subseteq> set xs"
    unfolding docs by (meson set_take_subset set_drop_subset subset_trans)
qed





lemma user_posts_query_page:
  "user_posts_query viewer userId wanted (q\<lparr>q_page := v\<rparr>) =
   user_posts_query viewer userId wanted q"
  by (rule ext) (simp add: user_posts_query_def)







section \<open>Visibility of listed posts\<close>

lemma walk_pages_member:
  assumes "p \<in> set (walk_pages fetch m)"
  shows "\<exists>k docs pg. 1 \<le> k \<and> k \<le> m \<and> fetch k = Inr (docs, pg) \<and> p \<in> set docs"
proof -
  from assms have "\<exists>k\<in>set [1..m]. p \<in> set (case fetch k of Inl e \<Rightarrow> [] | Inr r \<Rightarrow> fst r)"
    by (simp add: walk_pages_def)
  then obtain k where k: "k \<in> set [1..m]"
    and p: "p \<in> set (case fetch k of Inl e \<Rightarrow> [] | Inr r \<Rightarrow> fst r)"
    by blast
  from p obtain r where r: "fetch k = Inr r" and pr: "p \<in> set (fst r)"
    by (cases "fetch k") auto
  from k r pr show ?thesis
    by (cases r) auto
qed

text \<open>
  Claim C8. Every post that \<open>GET /\<close> returns is public, whatever the query. Every post that
  \<open>GET /user/:userId\<close> returns is by that user, and is public unless the authenticated
  caller is that user and asks under their identifier as \<open>toString()\<close> writes it. A caller
  asking so for their own posts does receive the private ones: with a positive page size,
  each stored post of the caller that passes the type filter, public or not, is on some
  page of the listing.
\<close>

theorem posts_listing_visibility:
  "(\<forall>docs pg. get_posts rx q s = Inr (docs, pg) \<longrightarrow> (\<forall>p\<in>set docs. isPublic p)) \<and>
   (\<forall>docs pg. get_user_posts viewer userId q s = Inr (docs, pg) \<longrightarrow>
      (\<forall>p\<in>set docs. castObjectId userId = Some (author p) \<and>
         (isPublic p \<or> (\<exists>u. viewer = Some u \<and> userId = Canonical (oid u) \<and> author p = oid u)))) \<and>
   (p \<in> set (Post s) \<and> author p = oid u \<and> (q_type q = [] \<or> ptype p = q_type q) \<and>
    0 < parse_or (q_limit q) 10 \<longrightarrow>
      (\<exists>k docs pg. 1 \<le> k \<and>
         get_user_posts (Some u) (Canonical (oid u)) (q\<lparr>q_page := Some k\<rparr>) s = Inr (docs, pg) \<and>
         p \<in> set docs))"
proof (intro conjI allI impI ballI)
  fix docs pg p'
  assume got: "get_posts rx q s = Inr (docs, pg)" and p': "p' \<in> set docs"
  from got obtain records where records: "posts_matches rx q s = Inr records"
    and page: "paginate (q_page q) (q_limit q) records = Inr (docs, pg)"
    by (cases "posts_matches rx q s") (auto simp: get_posts_def listing_def)
  from records obtain by_search wanted
    where "records = sort_desc (filter (posts_query by_search wanted q) (Post s))"
    by (auto simp: posts_matches_def split: option.splits)
  moreover from page p' paginate_reports_ceiling(3) [of "q_page q" "q_limit q" records docs pg]
  have "p' \<in> set records"
    by auto
  ultimately show "isPublic p'"
    by (simp add: set_sort_desc posts_query_def)
next
  fix docs pg p'
  assume got: "get_user_posts viewer userId q s = Inr (docs, pg)" and p': "p' \<in> set docs"
  from got obtain wanted where w: "castObjectId userId = Some wanted"
    by (cases "castObjectId userId") (auto simp: get_user_posts_def)
  with got p' paginate_reports_ceiling(3) [of "q_page q" "q_limit q" _ docs pg]
  have "p' \<in> set (sort_desc (filter (user_posts_query viewer userId wanted q) (Post s)))"
    by (auto simp: get_user_posts_def)
  then have m: "user_posts_query viewer userId wanted q p'"
    by (simp add: set_sort_desc)
  with w show "castObjectId userId = Some (author p')"
    by (simp add: user_posts_query_def)
  from m w show "isPublic p' \<or> (\<exists>u. viewer = Some u \<and> userId = Canonical (oid u) \<and> author p' = oid u)"
    by (cases viewer) (auto simp: user_posts_query_def split: if_splits)
next
  assume a: "p \<in> set (Post s) \<and> author p = oid u \<and> (q_type q = [] \<or> ptype p = q_type q) \<and>
    0 < parse_or (q_limit q) 10"
  let ?records = "sort_desc (filter (user_posts_query (Some u) (Canonical (oid u)) (oid u) q) (Post s))"
  from a have "user_posts_query (Some u) (Canonical (oid u)) (oid u) q p"
    by (auto simp: user_posts_query_def)
  with a have "p \<in> set ?records"
    by (simp add: set_sort_desc)
  moreover from a have "0 < parse_or (q_limit q) 10"
    by simp
  from walk_paginate [OF this, of ?records]
  have "walk_pages (\<lambda>k. paginate (Some k) (q_limit q) ?records)
          (ceil_div (int (length ?records)) (parse_or (q_limit q) 10)) = ?records" .
  ultimately have "p \<in> set (walk_pages (\<lambda>k. paginate (Some k) (q_limit q) ?records)
          (ceil_div (int (length ?records)) (parse_or (q_limit q) 10)))"
    by simp
  from walk_pages_member [OF this]
  show "\<exists>k docs pg. 1 \<le> k \<and>
         get_user_posts (Some u) (Canonical (oid u)) (q\<lparr>q_page := Some k\<rparr>) s = Inr (docs, pg) \<and> p \<in> set docs"
    by (auto simp: get_user_posts_def user_posts_query_page)
qed

theorem posts_listing_visibility_witness:
  "get_posts plain no_filter forum =
     Inr ([job1, note1], \<lparr>pg_page = 1, pg_limit = 10, pg_total = 2, pg_pages = 1\<rparr>) \<and>
   isPublic job1 \<and> isPublic note1 \<and> \<not> isPublic draft1 \<and>
   get_user_posts (Some bob) (Canonical 1) no_filter forum =
     Inr ([note1], \<lparr>pg_page = 1, pg_limit = 10, pg_total = 1, pg_pages = 1\<rparr>) \<and>
   get_user_posts (Some alice) (Canonical 1) no_filter forum =
     Inr ([draft1, note1], \<lparr>pg_page = 1, pg_limit = 10, pg_total = 2, pg_pages = 1\<rparr>) \<and>
   draft1 \<in> set (Post forum) \<and> author draft1 = oid alice \<and> q_type no_filter = [] \<and>
   0 < parse_or (q_limit no_filter) 10 \<and>
   (\<exists>k docs pg. 1 \<le> k \<and>
      get_user_posts (Some alice) (Canonical (oid alice)) (no_filter\<lparr>q_page := Some k\<rparr>) forum = Inr (docs, pg) \<and>
      draft1 \<in> set docs)"
proof -
  have posts: "posts_matches plain no_filter forum = Inr [job1, note1]"
    by (simp add: posts_matches_def used_def author_filter_def sort_desc_def posts_query_def
        no_filter_def forum_def note1_def draft1_def job1_def)
  have seen: "sort_desc (filter (user_posts_query (Some bob) (Canonical 1) 1 no_filter) (Post forum)) = [note1]"
    by (simp add: sort_desc_def user_posts_query_def no_filter_def forum_def
        note1_def draft1_def job1_def bob_def)
  have own: "sort_desc (filter (user_posts_query (Some alice) (Canonical 1) 1 no_filter) (Post forum)) =
      [draft1, note1]"
    by (simp add: sort_desc_def user_posts_query_def no_filter_def forum_def
        note1_def draft1_def job1_def alice_def)
  have g1: "get_posts plain no_filter forum =
     Inr ([job1, note1], \<lparr>pg_page = 1, pg_limit = 10, pg_total = 2, pg_pages = 1\<rparr>)"
    unfolding get_posts_def posts
    by (simp add: listing_def paginate_def parse_or_def no_filter_def ceil_div_def Let_def)
  have g2: "get_user_posts (Some bob) (Canonical 1) no_filter forum =
     Inr ([note1], \<lparr>pg_page = 1, pg_limit = 10, pg_total = 1, pg_pages = 1\<rparr>)"
    unfolding get_user_posts_def castObjectId.simps option.case seen
    by (simp add: paginate_def parse_or_def no_filter_def ceil_div_def Let_def)
  have g3: "get_user_posts (Some alice) (Canonical 1) no_filter forum =
     Inr ([draft1, note1], \<lparr>pg_page = 1, pg_limit = 10, pg_total = 2, pg_pages = 1\<rparr>)"
    unfolding get_user_posts_def castObjectId.simps option.case own
    by (simp add: paginate_def parse_or_def no_filter_def ceil_div_def Let_def)
  have flags: "isPublic job1" "isPublic note1" "\<not> isPublic draft1"
    by (simp_all add: job1_def note1_def draft1_def)
  have h: "draft1 \<in> set (Post forum)" "author draft1 = oid alice" "q_type no_filter = []"
    "0 < parse_or (q_limit no_filter) 10"
    by (simp_all add: forum_def draft1_def alice_def no_filter_def parse_or_def)
  from posts_listing_visibility [of plain no_filter forum "Some alice" "Canonical 1" draft1 alice] h
  have "\<exists>k docs pg. 1 \<le> k \<and>
      get_user_posts (Some alice) (Canonical (oid alice)) (no_filter\<lparr>q_page := Some k\<rparr>) forum = Inr (docs, pg) \<and>
      draft1 \<in> set docs"
    by blast
  with g1 g2 g3 flags h show ?thesis
    by (intro conjI)
qed

section \<open>Deleting a comment\<close>

lemma map_oid_update:
  assumes "\<And>d. oid (f d) = oid d"
  shows "map oid (findByIdAndUpdate i f ds) = map oid ds"
  by (induction ds) (auto simp: assms)

lemma findById_None_iff: "findById i ds = None \<longleftrightarrow> i \<notin> oid ` set ds"
  by (induction ds) (auto simp: findById_def)

lemma findById_deleteMany:
  assumes "distinct (map oid ds)"
  shows "findById i (deleteMany q ds) =
     (case findById i ds of None \<Rightarrow> None | Some d \<Rightarrow> if q d then None else Some d)"
  using assms
proof (induction ds)
  case Nil
  then show ?case by (simp add: findById_def deleteMany_def)
next
  case (Cons d ds)
  then have "oid d \<notin> oid ` set ds"
    by auto
  then have "oid d \<notin> oid ` set (filter (\<lambda>d. \<not> q d) ds)"
    by auto
  then have gone: "findById (oid d) (deleteMany q ds) = None"
    by (simp add: findById_None_iff deleteMany_def)
  from Cons have IH: "findById i (deleteMany q ds) =
     (case findById i ds of None \<Rightarrow> None | Some d \<Rightarrow> if q d then None else Some d)"
    by simp
  show ?case
  proof (cases "oid d = i")
    case True
    with gone show ?thesis
      by (simp add: findById_def deleteMany_def)
  next
    case False
    with IH show ?thesis
      by (simp add: findById_def deleteMany_def)
  qed
qed

lemma findById_delete:
  assumes "distinct (map oid ds)"
  shows "findById j (findByIdAndDelete i ds) = (if j = i then None else findById j ds)"
  using assms
proof (induction ds)
  case Nil
  then show ?case by (simp add: findById_def)
next
  case (Cons d ds)
  then have "oid d \<notin> oid ` set ds"
    by auto
  then have "findById (oid d) ds = None"
    by (simp add: findById_None_iff)
  with Cons show ?case
    by (auto simp: findById_def)
qed

lemma distinct_deleteMany: "distinct (map oid ds) \<Longrightarrow> distinct (map oid (deleteMany q ds))"
  by (simp add: deleteMany_def distinct_map_filter)

lemma delete_comment_result:
  assumes "findById commentId (Comment s) = Some c" "c_author c = oid u"
  shows "delete_comment u commentId s =
     (Inr ''Comment deleted successfully'',
      s\<lparr>Post := findByIdAndUpdate (c_post c)
                (\<lambda>p. p\<lparr>comments := pull commentId (comments p)\<rparr>) (Post s),
        Comment := findByIdAndDelete commentId
          (deleteMany (\<lambda>r. parentComment r = Some commentId)
            (case parentComment c of
               None \<Rightarrow> Comment s
             | Some parent \<Rightarrow> findByIdAndUpdate parent
                 (\<lambda>x. x\<lparr>replies := pull commentId (replies x)\<rparr>) (Comment s)))\<rparr>)"
  using assms by (simp add: delete_comment_def Let_def)

lemma delete_comment_lookup:
  assumes c: "findById commentId (Comment s) = Some c" "c_author c = oid u"
    and uniq: "distinct (map oid (Comment s))"
  shows "findById r (Comment (snd (delete_comment u commentId s))) =
     (if r = commentId then None
      else case findById r (Comment s) of
        None \<Rightarrow> None
      | Some x \<Rightarrow>
          if parentComment x = Some commentId then None
          else if parentComment c = Some r then Some (x\<lparr>replies := pull commentId (replies x)\<rparr>)
          else Some x)"
proof -
  let ?detached = "case parentComment c of
               None \<Rightarrow> Comment s
             | Some parent \<Rightarrow> findByIdAndUpdate parent
                 (\<lambda>x. x\<lparr>replies := pull commentId (replies x)\<rparr>) (Comment s)"
  have ids: "map oid ?detached = map oid (Comment s)"
    by (cases "parentComment c") (simp_all add: map_oid_update)
  with uniq have d1: "distinct (map oid ?detached)"
    by simp
  then have d2: "distinct (map oid (deleteMany (\<lambda>r. parentComment r = Some commentId) ?detached))"
    by (rule distinct_deleteMany)
  have look: "findById r ?detached =
      (case findById r (Comment s) of
         None \<Rightarrow> None
       | Some x \<Rightarrow> if parentComment c = Some r
           then Some (x\<lparr>replies := pull commentId (replies x)\<rparr>) else Some x)"
    by (cases "parentComment c") (auto simp: findById_update split: option.splits)
  show ?thesis
    unfolding delete_comment_result [OF c]
    by (simp add: findById_delete [OF d2] findById_deleteMany [OF d1] look split: option.splits)
qed

lemma create_comment_pushes:
  assumes made: "create_comment v body new_id now s = (Inr r, s1)"
    and post: "cb_postId body = Some postId" "findById postId (Post s) = Some p"
  shows "findById postId (Post s1) = Some (p\<lparr>comments := comments p @ [new_id]\<rparr>)"
proof -
  from made post have "Post s1 = findByIdAndUpdate postId
      (\<lambda>p. p\<lparr>comments := push new_id (comments p)\<rparr>) (Post s)"
    by (auto simp: create_comment_def Let_def split: if_splits option.splits)
  with post show ?thesis
    by (simp add: findById_update push_def)
qed

text \<open>
  Claim C9. Let the author delete a stored comment through \<open>DELETE /:commentId\<close>, in a
  collection with unique identifiers. The only change to the posts is that the comment's
  own identifier is pulled from the comment list of its post: every other element of that
  list stays, in order. In particular a reply to the comment whose identifier is in that
  list (where creating the reply pushed it) has its record deleted and its identifier left
  in the list.
\<close>

theorem delete_leaves_reply_references:
  assumes c: "findById commentId (Comment s) = Some c" "c_author c = oid u"
    and uniq: "distinct (map oid (Comment s))"
    and p: "findById (c_post c) (Post s) = Some p"
  shows "fst (delete_comment u commentId s) = Inr ''Comment deleted successfully'' \<and>
     Post (snd (delete_comment u commentId s)) =
       findByIdAndUpdate (c_post c) (\<lambda>x. x\<lparr>comments := removeAll commentId (comments x)\<rparr>) (Post s) \<and>
     findById (c_post c) (Post (snd (delete_comment u commentId s))) =
       Some (p\<lparr>comments := removeAll commentId (comments p)\<rparr>) \<and>
     (\<forall>r x. r \<noteq> commentId \<and> findById r (Comment s) = Some x \<and>
        parentComment x = Some commentId \<and> r \<in> set (comments p) \<longrightarrow>
          findById r (Comment (snd (delete_comment u commentId s))) = None \<and>
          r \<in> set (removeAll commentId (comments p))) \<and>
     (\<forall>v body new_id now r s1.
        create_comment v body new_id now s = (Inr r, s1) \<and> cb_postId body = Some (c_post c) \<and>
        cb_parentCommentId body = Some commentId \<longrightarrow>
          findById (c_post c) (Post s1) = Some (p\<lparr>comments := comments p @ [new_id]\<rparr>))"
proof (intro conjI allI impI)
  show "fst (delete_comment u commentId s) = Inr ''Comment deleted successfully''"
    by (simp add: delete_comment_result [OF c])
  show posts: "Post (snd (delete_comment u commentId s)) =
       findByIdAndUpdate (c_post c) (\<lambda>x. x\<lparr>comments := removeAll commentId (comments x)\<rparr>) (Post s)"
    by (simp add: delete_comment_result [OF c] pull_def)
  show "findById (c_post c) (Post (snd (delete_comment u commentId s))) =
       Some (p\<lparr>comments := removeAll commentId (comments p)\<rparr>)"
    unfolding posts using p by (simp add: findById_update)
next
  fix r x
  assume a: "r \<noteq> commentId \<and> findById r (Comment s) = Some x \<and>
        parentComment x = Some commentId \<and> r \<in> set (comments p)"
  then show "findById r (Comment (snd (delete_comment u commentId s))) = None"
    by (simp add: delete_comment_lookup [OF c uniq])
  from a show "r \<in> set (removeAll commentId (comments p))"
    by simp
next
  fix v body new_id now r s1
  assume "create_comment v body new_id now s = (Inr r, s1) \<and> cb_postId body = Some (c_post c) \<and>
        cb_parentCommentId body = Some commentId"
  with p show "findById (c_post c) (Post s1) = Some (p\<lparr>comments := comments p @ [new_id]\<rparr>)"
    using create_comment_pushes by blast
qed

lemma replied_eval:
  "replied = \<lparr>User = [alice, bob, carol],
      Post = [note1\<lparr>comments := [100, 101, 200]\<rparr>, draft1, job1],
      Comment = [c100\<lparr>replies := [101, 200]\<rparr>, c101, c102,
        \<lparr>oid = 200, createdAt = 160, c_author = 3, c_post = 10, parentComment = Some 100,
         c_content = ''me too'', replies = [], c_likes = []\<rparr>]\<rparr>"
  by (simp add: replied_def create_comment_def reply_body_def forum_def findById_def Let_def
      push_def note1_def draft1_def job1_def c100_def c101_def c102_def carol_def)

theorem delete_leaves_reply_references_witness:
  "fst (create_comment carol reply_body 200 160 forum) =
     Inr (''Comment created successfully'',
          Some \<lparr>oid = 200, createdAt = 160, c_author = 3, c_post = 10, parentComment = Some 100,
            c_content = ''me too'', replies = [], c_likes = []\<rparr>) \<and>
   map_option comments (findById 10 (Post replied)) = Some [100, 101, 200] \<and>
   map_option c_author (findById 100 (Comment replied)) = Some (oid bob) \<and>
   distinct (map oid (Comment replied)) \<and>
   map_option parentComment (findById 101 (Comment replied)) = Some (Some 100) \<and>
   map_option parentComment (findById 200 (Comment replied)) = Some (Some 100) \<and>
   fst (delete_comment bob 100 replied) = Inr ''Comment deleted successfully'' \<and>
   map_option comments (findById 10 (Post (snd (delete_comment bob 100 replied)))) = Some [101, 200] \<and>
   findById 100 (Comment (snd (delete_comment bob 100 replied))) = None \<and>
   findById 101 (Comment (snd (delete_comment bob 100 replied))) = None \<and>
   findById 200 (Comment (snd (delete_comment bob 100 replied))) = None"
proof -
  let ?c = "c100\<lparr>replies := [101, 200]\<rparr>"
  let ?p = "note1\<lparr>comments := [100, 101, 200]\<rparr>"
  have made: "fst (create_comment carol reply_body 200 160 forum) =
     Inr (''Comment created successfully'',
          Some \<lparr>oid = 200, createdAt = 160, c_author = 3, c_post = 10, parentComment = Some 100,
            c_content = ''me too'', replies = [], c_likes = []\<rparr>)"
    by (simp add: create_comment_def reply_body_def forum_def findById_def Let_def
      push_def note1_def draft1_def job1_def c100_def c101_def c102_def carol_def)
  have h: "findById 100 (Comment replied) = Some ?c" "c_author ?c = oid bob"
    "distinct (map oid (Comment replied))" "findById (c_post ?c) (Post replied) = Some ?p"
    by (simp_all add: replied_eval findById_def c100_def c101_def c102_def bob_def note1_def)
  have r: "findById 101 (Comment replied) = Some c101"
    "findById 200 (Comment replied) = Some \<lparr>oid = 200, createdAt = 160, c_author = 3, c_post = 10,
        parentComment = Some 100, c_content = ''me too'', replies = [], c_likes = []\<rparr>"
    by (simp_all add: replied_eval findById_def c100_def c101_def c102_def)
  have gone: "findById 100 (Comment (snd (delete_comment bob 100 replied))) = None"
    by (simp add: delete_comment_lookup [OF h(1,2,3)])
  note inst = delete_leaves_reply_references [OF h]
  from inst have ok: "fst (delete_comment bob 100 replied) = Inr ''Comment deleted successfully''"
    by (elim conjE)
  from inst have left: "findById (c_post ?c) (Post (snd (delete_comment bob 100 replied))) =
       Some (?p\<lparr>comments := removeAll 100 (comments ?p)\<rparr>)"
    by (elim conjE)
  from inst have dangling: "\<forall>r x. r \<noteq> 100 \<and> findById r (Comment replied) = Some x \<and>
        parentComment x = Some 100 \<and> r \<in> set (comments ?p) \<longrightarrow>
          findById r (Comment (snd (delete_comment bob 100 replied))) = None \<and>
          r \<in> set (removeAll 100 (comments ?p))"
    by (elim conjE)
  from dangling r have d1: "findById 101 (Comment (snd (delete_comment bob 100 replied))) = None"
    and d2: "findById 200 (Comment (snd (delete_comment bob 100 replied))) = None"
    by (simp_all add: c101_def)
  from left have l: "map_option comments (findById 10 (Post (snd (delete_comment bob 100 replied)))) =
      Some [101, 200]"
    by (simp add: c100_def)
  from made h r ok l gone d1 d2 show ?thesis
    by (simp add: c101_def c100_def replied_eval findById_def note1_def)
qed

text \<open>
  The cascade of \<open>DELETE /:commentId\<close>: the record of the comment and the records of its
  replies are deleted, its identifier leaves the comment list of its post and, for a reply,
  the reply list of its parent. \<open>DELETE /:postId/comments/:commentId\<close> does the same when
  \<open>:postId\<close> is the comment's own post.
\<close>

lemma delete_post_comment_own_post:
  assumes "findById commentId (Comment s) = Some c"
  shows "delete_post_comment u (c_post c) commentId s = delete_comment u commentId s"
  using assms by (simp add: delete_post_comment_def delete_comment_def)

lemma delete_comment_cascade:
  assumes c: "findById commentId (Comment s) = Some c" "c_author c = oid u"
    and uniq: "distinct (map oid (Comment s))"
  shows "fst (delete_comment u commentId s) = Inr ''Comment deleted successfully''"
    and "findById commentId (Comment (snd (delete_comment u commentId s))) = None"
    and "findById r (Comment s) = Some x \<Longrightarrow> parentComment x = Some commentId \<Longrightarrow>
           findById r (Comment (snd (delete_comment u commentId s))) = None"
    and "findById (c_post c) (Post s) = Some p \<Longrightarrow>
           findById (c_post c) (Post (snd (delete_comment u commentId s))) =
             Some (p\<lparr>comments := removeAll commentId (comments p)\<rparr>)"
    and "parentComment c = Some parent \<Longrightarrow> parent \<noteq> commentId \<Longrightarrow>
         findById parent (Comment s) = Some y \<Longrightarrow> parentComment y \<noteq> Some commentId \<Longrightarrow>
           findById parent (Comment (snd (delete_comment u commentId s))) =
             Some (y\<lparr>replies := removeAll commentId (replies y)\<rparr>)"
proof -
  show "fst (delete_comment u commentId s) = Inr ''Comment deleted successfully''"
    by (simp add: delete_comment_result [OF c])
  show "findById commentId (Comment (snd (delete_comment u commentId s))) = None"
    by (simp add: delete_comment_lookup [OF c uniq])
  show "findById r (Comment s) = Some x \<Longrightarrow> parentComment x = Some commentId \<Longrightarrow>
           findById r (Comment (snd (delete_comment u commentId s))) = None"
    by (simp add: delete_comment_lookup [OF c uniq])
  show "findById (c_post c) (Post s) = Some p \<Longrightarrow>
           findById (c_post c) (Post (snd (delete_comment u commentId s))) =
             Some (p\<lparr>comments := removeAll commentId (comments p)\<rparr>)"
    by (simp add: delete_comment_result [OF c] findById_update pull_def)
  show "parentComment c = Some parent \<Longrightarrow> parent \<noteq> commentId \<Longrightarrow>
         findById parent (Comment s) = Some y \<Longrightarrow> parentComment y \<noteq> Some commentId \<Longrightarrow>
           findById parent (Comment (snd (delete_comment u commentId s))) =
             Some (y\<lparr>replies := removeAll commentId (replies y)\<rparr>)"
    by (simp add: delete_comment_lookup [OF c uniq] pull_def)
qed

text \<open>
  Claim C5 holds of \<open>DELETE /:commentId\<close> (\<open>delete_comment_cascade\<close>) and fails of
  \<open>DELETE /:postId/comments/:commentId\<close>, which pulls the identifier from the post the
  route names and never compares it with the comment's post. Comment 102 is alice's, on
  post 12. Deleted by alice under post 10, its record is gone and the answer is
  "Comment deleted successfully", and post 12 still lists 102; deleted through
  \<open>DELETE /102\<close>, post 12 lists nothing.
\<close>

theorem nested_delete_keeps_reference:
  "findById 102 (Comment forum) = Some c102 \<and> c_post c102 = 12 \<and> c_author c102 = oid alice \<and>
   map_option comments (findById 12 (Post forum)) = Some [102] \<and>
   fst (delete_post_comment alice 10 102 forum) = Inr ''Comment deleted successfully'' \<and>
   findById 102 (Comment (snd (delete_post_comment alice 10 102 forum))) = None \<and>
   map_option comments (findById 12 (Post (snd (delete_post_comment alice 10 102 forum)))) = Some [102] \<and>
   fst (delete_comment alice 102 forum) = Inr ''Comment deleted successfully'' \<and>
   map_option comments (findById 12 (Post (snd (delete_comment alice 102 forum)))) = Some []"
  by (simp add: delete_post_comment_def delete_comment_def forum_def findById_def Let_def
      pull_def deleteMany_def note1_def draft1_def job1_def c100_def c101_def c102_def alice_def)

end
